theory Spec2Isabelle
  imports Complex_Main "HOL-Library.AList" "HOL-Library.Multiset"
begin

section \<open>The chrono library: TimePeriod, TimePoint and atTime\<close>

text \<open>
  The file \<^verbatim>\<open>src/index.ts\<close> holds two revisions of the library one after the other.
  The model follows the later revision (lines 296 to 662), which is the one the test suite
  under \<^verbatim>\<open>src/tests\<close> exercises. Where the earlier revision (lines 1 to 295) differs in a
  way that matters below (the decomposition without the sort, the day check against a
  table), its code is modelled next to the later one under a name ending in \<open>_v1\<close>.
  In the earlier revision \<^verbatim>\<open>difference\<close> takes a TimePoint only and there is no \<^verbatim>\<open>atTime\<close>.
\<close>

subsection \<open>JavaScript numbers\<close>

text \<open>
  A JavaScript \<^verbatim>\<open>number\<close> is an IEEE-754 double. The model keeps the special values
  (\<open>NaN\<close> and the two infinities) and takes the finite values as real numbers with exact
  arithmetic: rounding, overflow to infinity and the sign of zero are not modelled
  (a division by zero takes the zero as positive). Every finite double is a real number,
  so every finite input of the program is an input of the model. On whole numbers of
  absolute value up to \<open>2^53\<close> the model and the doubles agree: sums, differences and
  products of such numbers that stay in this range are exact in doubles, and a quotient
  \<open>r / d\<close> of whole numbers with \<open>r + d < 2^53\<close> rounds to a double with the same floor.
\<close>

datatype number = NaN | NegInf | Fin real | PosInf

fun js_neg :: "number \<Rightarrow> number" where
  "js_neg NaN = NaN"
| "js_neg NegInf = PosInf"
| "js_neg PosInf = NegInf"
| "js_neg (Fin a) = Fin (- a)"

text \<open>\<^verbatim>\<open>x + y\<close>\<close>

fun js_add :: "number \<Rightarrow> number \<Rightarrow> number" where
  "js_add (Fin a) (Fin b) = Fin (a + b)"
| "js_add NaN y = NaN"
| "js_add x NaN = NaN"
| "js_add PosInf NegInf = NaN"
| "js_add NegInf PosInf = NaN"
| "js_add PosInf y = PosInf"
| "js_add x PosInf = PosInf"
| "js_add NegInf y = NegInf"
| "js_add x NegInf = NegInf"

text \<open>\<^verbatim>\<open>x - y\<close>\<close>

definition js_sub :: "number \<Rightarrow> number \<Rightarrow> number" where
  "js_sub x y = js_add x (js_neg y)"

text \<open>\<^verbatim>\<open>x * y\<close>\<close>

fun js_mul :: "number \<Rightarrow> number \<Rightarrow> number" where
  "js_mul (Fin a) (Fin b) = Fin (a * b)"
| "js_mul NaN y = NaN"
| "js_mul x NaN = NaN"
| "js_mul (Fin a) y = (if a = 0 then NaN else if 0 < a then y else js_neg y)"
| "js_mul x (Fin b) = (if b = 0 then NaN else if 0 < b then x else js_neg x)"
| "js_mul PosInf y = y"
| "js_mul NegInf y = js_neg y"

text \<open>\<^verbatim>\<open>x / y\<close>\<close>

fun js_div :: "number \<Rightarrow> number \<Rightarrow> number" where
  "js_div (Fin a) (Fin b) =
     (if b = 0 then (if a = 0 then NaN else if 0 < a then PosInf else NegInf)
      else Fin (a / b))"
| "js_div NaN y = NaN"
| "js_div x NaN = NaN"
| "js_div (Fin a) y = Fin 0"
| "js_div x (Fin b) = (if 0 \<le> b then x else js_neg x)"
| "js_div x y = NaN"

text \<open>\<^verbatim>\<open>x % y\<close>: the remainder of the division truncated towards zero.\<close>

definition trunc :: "real \<Rightarrow> int" where
  "trunc q = (if 0 \<le> q then \<lfloor>q\<rfloor> else \<lceil>q\<rceil>)"

fun js_rem :: "number \<Rightarrow> number \<Rightarrow> number" where
  "js_rem (Fin a) (Fin b) =
     (if b = 0 then NaN else Fin (a - b * of_int (trunc (a / b))))"
| "js_rem (Fin a) PosInf = Fin a"
| "js_rem (Fin a) NegInf = Fin a"
| "js_rem x y = NaN"

text \<open>\<^verbatim>\<open>x < y\<close>, \<^verbatim>\<open>x > y\<close>, \<^verbatim>\<open>x == y\<close> (the same as \<^verbatim>\<open>===\<close> on two numbers),
  \<^verbatim>\<open>x !== y\<close>, \<^verbatim>\<open>x <= y\<close>, \<^verbatim>\<open>x >= y\<close>.\<close>

fun js_lt :: "number \<Rightarrow> number \<Rightarrow> bool" where
  "js_lt (Fin a) (Fin b) = (a < b)"
| "js_lt NegInf (Fin b) = True"
| "js_lt NegInf PosInf = True"
| "js_lt (Fin a) PosInf = True"
| "js_lt x y = False"

definition js_gt :: "number \<Rightarrow> number \<Rightarrow> bool" where
  "js_gt x y = js_lt y x"

fun js_eq :: "number \<Rightarrow> number \<Rightarrow> bool" where
  "js_eq NaN y = False"
| "js_eq x NaN = False"
| "js_eq x y = (x = y)"

definition js_ne :: "number \<Rightarrow> number \<Rightarrow> bool" where
  "js_ne x y = (\<not> js_eq x y)"

definition js_le :: "number \<Rightarrow> number \<Rightarrow> bool" where
  "js_le x y = (js_lt x y \<or> js_eq x y)"

definition js_ge :: "number \<Rightarrow> number \<Rightarrow> bool" where
  "js_ge x y = js_le y x"

text \<open>\<^verbatim>\<open>Math.floor\<close> and \<^verbatim>\<open>Math.abs\<close>\<close>

fun Math_floor :: "number \<Rightarrow> number" where
  "Math_floor (Fin a) = Fin (of_int \<lfloor>a\<rfloor>)"
| "Math_floor x = x"

fun Math_abs :: "number \<Rightarrow> number" where
  "Math_abs (Fin a) = Fin \<bar>a\<bar>"
| "Math_abs NegInf = PosInf"
| "Math_abs x = x"

subsection \<open>Arrays and objects\<close>

text \<open>
  \<^verbatim>\<open>Array.prototype.sort\<close> with a comparator is stable; with a comparator that is a
  consistent ordering its result is the one of a stable insertion sort, where \<open>x\<close> stays
  before \<open>y\<close> unless \<open>cmp x y > 0\<close>.
\<close>

fun insort_cmp :: "('a \<Rightarrow> 'a \<Rightarrow> real) \<Rightarrow> 'a \<Rightarrow> 'a list \<Rightarrow> 'a list" where
  "insort_cmp cmp x [] = [x]"
| "insort_cmp cmp x (y # ys) =
     (if cmp x y \<le> 0 then x # y # ys else y # insort_cmp cmp x ys)"

definition Array_sort :: "('a \<Rightarrow> 'a \<Rightarrow> real) \<Rightarrow> 'a list \<Rightarrow> 'a list" where
  "Array_sort cmp xs = foldr (insort_cmp cmp) xs []"

text \<open>\<^verbatim>\<open>xs.at(-1)\<close>: the last element, \<^verbatim>\<open>undefined\<close> on the empty array.\<close>

definition Array_at_last :: "'a list \<Rightarrow> 'a option" where
  "Array_at_last xs = (if xs = [] then None else Some (last xs))"

text \<open>
  An object with string keys lists its keys in insertion order, and an assignment to a
  key it already has keeps the key's place. It is an association list with distinct keys,
  and \<^verbatim>\<open>obj[k] = v\<close> is \<^const>\<open>AList.update\<close>.
\<close>

type_synonym 'k obj = "('k \<times> number) list"

subsection \<open>Units and their divisors\<close>

datatype TimeUnit =
  Milliseconds | Seconds | Minutes | Hours | Days | Weeks | Microfortnights

fun divisors :: "TimeUnit \<Rightarrow> real" where
  "divisors Microfortnights = 1209.6"
| "divisors Weeks = 3600000 * 24 * 7"
| "divisors Days = 3600000 * 24"
| "divisors Hours = 3600000"
| "divisors Minutes = 60000"
| "divisors Seconds = 1000"
| "divisors Milliseconds = 1"

subsection \<open>TimePeriod\<close>

record TimePeriod =
  asMilliseconds :: number

text \<open>The constructor takes a number of milliseconds or a breakdown.\<close>

datatype TimePeriod_input = OfNumber number | OfBreakdown "TimeUnit obj"

fun new_TimePeriod :: "TimePeriod_input \<Rightarrow> TimePeriod" where
  "new_TimePeriod (OfNumber t) = \<lparr>asMilliseconds = t\<rparr>"
| "new_TimePeriod (OfBreakdown t) =
     \<lparr>asMilliseconds =
        foldl (\<lambda>sum (unit, amount). js_add sum (js_mul (Fin (divisors unit)) amount))
          (Fin 0) t\<rparr>"

definition asSeconds :: "TimePeriod \<Rightarrow> number" where
  "asSeconds this = js_div (asMilliseconds this) (Fin (divisors Seconds))"

definition asMinutes :: "TimePeriod \<Rightarrow> number" where
  "asMinutes this = js_div (asMilliseconds this) (Fin (divisors Minutes))"

definition asHours :: "TimePeriod \<Rightarrow> number" where
  "asHours this = js_div (asMilliseconds this) (Fin (divisors Hours))"

definition asDays :: "TimePeriod \<Rightarrow> number" where
  "asDays this = js_div (asMilliseconds this) (Fin (divisors Days))"

definition asWeeks :: "TimePeriod \<Rightarrow> number" where
  "asWeeks this = js_div (asMilliseconds this) (Fin (divisors Weeks))"

text \<open>An argument that is a TimePeriod or a breakdown.\<close>

datatype period_or_breakdown = Period TimePeriod | Breakdown "TimeUnit obj"

fun to_period :: "period_or_breakdown \<Rightarrow> TimePeriod" where
  "to_period (Period p) = p"
| "to_period (Breakdown b) = new_TimePeriod (OfBreakdown b)"

definition add :: "TimePeriod \<Rightarrow> period_or_breakdown list \<Rightarrow> TimePeriod" where
  "add this periods =
     new_TimePeriod (OfBreakdown
       [(Milliseconds,
         foldl (\<lambda>sum p. js_add sum (asMilliseconds (to_period p)))
           (asMilliseconds this) periods)])"

definition subtract :: "TimePeriod \<Rightarrow> period_or_breakdown \<Rightarrow> TimePeriod" where
  "subtract this period =
     new_TimePeriod (OfNumber
       (js_sub (asMilliseconds this) (asMilliseconds (to_period period))))"

definition multiply :: "TimePeriod \<Rightarrow> number \<Rightarrow> TimePeriod" where
  "multiply this by =
     new_TimePeriod (OfBreakdown [(Milliseconds, js_mul (asMilliseconds this) by)])"

definition divide :: "TimePeriod \<Rightarrow> number \<Rightarrow> TimePeriod" where
  "divide this by =
     new_TimePeriod (OfBreakdown [(Milliseconds, js_div (asMilliseconds this) by)])"

definition equals :: "TimePeriod \<Rightarrow> TimePeriod \<Rightarrow> bool" where
  "equals this period = js_eq (asMilliseconds period) (asMilliseconds this)"

definition abs_period :: "TimePeriod \<Rightarrow> TimePeriod" where
  "abs_period this =
     (if js_lt (asMilliseconds this) (Fin 0)
      then new_TimePeriod (OfNumber (Math_abs (asMilliseconds this)))
      else this)"

definition TimePeriod_weeks :: "number \<Rightarrow> TimePeriod" where
  "TimePeriod_weeks n = new_TimePeriod (OfBreakdown [(Weeks, n)])"

definition TimePeriod_days :: "number \<Rightarrow> TimePeriod" where
  "TimePeriod_days n = new_TimePeriod (OfBreakdown [(Days, n)])"

definition TimePeriod_hours :: "number \<Rightarrow> TimePeriod" where
  "TimePeriod_hours n = new_TimePeriod (OfBreakdown [(Hours, n)])"

definition TimePeriod_minutes :: "number \<Rightarrow> TimePeriod" where
  "TimePeriod_minutes n = new_TimePeriod (OfBreakdown [(Minutes, n)])"

definition TimePeriod_seconds :: "number \<Rightarrow> TimePeriod" where
  "TimePeriod_seconds n = new_TimePeriod (OfBreakdown [(Seconds, n)])"

definition TimePeriod_milliseconds :: "number \<Rightarrow> TimePeriod" where
  "TimePeriod_milliseconds n = new_TimePeriod (OfNumber n)"

subsection \<open>TimePeriod.breakdown\<close>

record BreakdownOptions =
  floatLast :: bool
  includeZero :: bool

text \<open>\<^verbatim>\<open>Partial<BreakdownOptions>\<close>: each option is given or absent.\<close>

record PartialBreakdownOptions =
  floatLast_opt :: "bool option"
  includeZero_opt :: "bool option"

text \<open>\<^verbatim>\<open>{ ...defaults, ...given }\<close>\<close>

definition spread :: "BreakdownOptions \<Rightarrow> PartialBreakdownOptions \<Rightarrow> BreakdownOptions" where
  "spread defaults given =
     \<lparr>floatLast = (case floatLast_opt given of None \<Rightarrow> floatLast defaults | Some b \<Rightarrow> b),
      includeZero = (case includeZero_opt given of None \<Rightarrow> includeZero defaults | Some b \<Rightarrow> b)\<rparr>"

text \<open>The first argument of \<^verbatim>\<open>breakdown\<close> is the unit list or, without one, the options.\<close>

datatype breakdown_arg = UnitList "TimeUnit list" | OptionsOnly PartialBreakdownOptions

text \<open>The first part of the body: the units to use and the full options.\<close>

fun breakdown_args ::
  "breakdown_arg \<Rightarrow> PartialBreakdownOptions \<Rightarrow> TimeUnit list \<times> BreakdownOptions" where
  "breakdown_args (UnitList units) options =
     (units, spread \<lparr>floatLast = False, includeZero = True\<rparr> options)"
| "breakdown_args (OptionsOnly units) options =
     ([Days, Hours, Minutes, Seconds, Milliseconds],
      spread \<lparr>floatLast = True, includeZero = False\<rparr> units)"

text \<open>The body of the \<^verbatim>\<open>forEach\<close>, on the state \<open>(remaining, result)\<close>.\<close>

definition breakdown_each ::
  "bool \<Rightarrow> TimeUnit option \<Rightarrow> number \<times> TimeUnit obj \<Rightarrow> TimeUnit \<Rightarrow> number \<times> TimeUnit obj" where
  "breakdown_each inclZero floatUnit st unit =
     (let remaining = fst st; result = snd st; dv = Fin (divisors unit) in
      if Some unit = floatUnit then
        (let amount = js_div remaining dv in
         (remaining, if inclZero \<or> js_ne amount (Fin 0)
                     then AList.update unit amount result else result))
      else
        (let amount = Math_floor (js_div remaining dv);
             remaining' = js_sub remaining (js_mul amount dv) in
         (remaining', if inclZero \<or> js_ne amount (Fin 0)
                      then AList.update unit amount result else result)))"

definition breakdown ::
  "TimePeriod \<Rightarrow> breakdown_arg \<Rightarrow> PartialBreakdownOptions \<Rightarrow> TimeUnit obj" where
  "breakdown this units options =
     (let (units1, fullOptions) = breakdown_args units options;
          units2 = Array_sort (\<lambda>a b. divisors b - divisors a) units1;
          floatUnit = (if floatLast fullOptions then Array_at_last units2 else None)
      in snd (foldl (breakdown_each (includeZero fullOptions) floatUnit)
                (asMilliseconds this, []) units2))"

text \<open>The earlier revision is the same without the sort (index.ts 227 to 266).\<close>

definition breakdown_v1 ::
  "TimePeriod \<Rightarrow> breakdown_arg \<Rightarrow> PartialBreakdownOptions \<Rightarrow> TimeUnit obj" where
  "breakdown_v1 this units options =
     (let (units1, fullOptions) = breakdown_args units options;
          floatUnit = (if floatLast fullOptions then Array_at_last units1 else None)
      in snd (foldl (breakdown_each (includeZero fullOptions) floatUnit)
                (asMilliseconds this, []) units1))"

text \<open>
  The decomposition in the words of the specification: the units in significance order
  (largest divisor first); every unit but the last takes the floor of \<open>remaining / divisor\<close>
  and leaves the rest; the last unit takes \<open>remaining / divisor\<close> when \<open>floatLast\<close> is set
  and its floor otherwise; an entry is kept when \<open>includeZero\<close> is set or its amount is not 0.
\<close>

fun spec_amounts :: "bool \<Rightarrow> number \<Rightarrow> TimeUnit list \<Rightarrow> (TimeUnit \<times> number) list" where
  "spec_amounts fl remaining [] = []"
| "spec_amounts fl remaining [unit] =
     [(unit, if fl then js_div remaining (Fin (divisors unit))
             else Math_floor (js_div remaining (Fin (divisors unit))))]"
| "spec_amounts fl remaining (unit # units) =
     (let amount = Math_floor (js_div remaining (Fin (divisors unit)))
      in (unit, amount) #
         spec_amounts fl (js_sub remaining (js_mul amount (Fin (divisors unit)))) units)"

definition significance_order :: "TimeUnit list \<Rightarrow> TimeUnit list" where
  "significance_order units = sort_key (\<lambda>u. - divisors u) units"

definition spec_breakdown :: "number \<Rightarrow> TimeUnit list \<Rightarrow> bool \<Rightarrow> bool \<Rightarrow> TimeUnit obj" where
  "spec_breakdown ms units fl iz =
     filter (\<lambda>(unit, amount). iz \<or> amount \<noteq> Fin 0)
       (spec_amounts fl ms (significance_order units))"

subsection \<open>The host's Date\<close>

text \<open>
  The constructor of TimePoint asks the host for \<^verbatim>\<open>new Date(year, month, 0).getDate()\<close>.
  The host is modelled after ECMA-262 (MakeFullYear, MakeDay, TimeClip), for a host whose
  local time zone is UTC: a year from 0 to 99 stands for 1900 + year, the month index is
  carried into the year, day 0 of a month is the last day of the month before, and a date
  further than 8.64e15 ms from the epoch is invalid, with \<^verbatim>\<open>getDate()\<close> NaN.
\<close>

definition DaysInYear :: "int \<Rightarrow> int" where
  "DaysInYear y =
     (if y mod 4 \<noteq> 0 then 365 else if y mod 100 \<noteq> 0 then 366
      else if y mod 400 \<noteq> 0 then 365 else 366)"

definition DayFromYear :: "int \<Rightarrow> int" where
  "DayFromYear y =
     365 * (y - 1970) + (y - 1969) div 4 - (y - 1901) div 100 + (y - 1601) div 400"

text \<open>The number of days of the month with index \<open>mn\<close> (0 is January) in year \<open>y\<close>.\<close>

definition DaysInMonth :: "int \<Rightarrow> nat \<Rightarrow> int" where
  "DaysInMonth y mn =
     [31, if DaysInYear y = 366 then 29 else 28, 31, 30, 31, 30, 31, 31, 30, 31, 30, 31] ! mn"

text \<open>The day within the year of the first day of the month with index \<open>mn\<close>.\<close>

definition MonthStart :: "int \<Rightarrow> nat \<Rightarrow> int" where
  "MonthStart y mn = sum_list (map (DaysInMonth y) [0..<mn])"

fun MakeFullYear :: "number \<Rightarrow> number" where
  "MakeFullYear (Fin y) =
     (let truncated = trunc y
      in if 0 \<le> truncated \<and> truncated \<le> 99 then Fin (of_int (1900 + truncated))
         else Fin (of_int truncated))"
| "MakeFullYear x = x"

definition msPerDay :: int where
  "msPerDay = 86400000"

text \<open>\<^verbatim>\<open>new Date(year, month, 0).getDate()\<close>\<close>

definition Date_day0_getDate :: "number \<Rightarrow> number \<Rightarrow> number" where
  "Date_day0_getDate yr mo =
     (case (MakeFullYear yr, mo) of
        (Fin y, Fin m) \<Rightarrow>
          (let mi = trunc m;
               ym = trunc y + mi div 12;
               mn = nat (mi mod 12);
               dy = DayFromYear ym + MonthStart ym mn - 1
           in if \<bar>dy * msPerDay\<bar> > 8640000000000000 then NaN
              else Fin (of_int (if mn = 0 then DaysInMonth (ym - 1) 11
                                else DaysInMonth ym (mn - 1))))
      | _ \<Rightarrow> NaN)"

text \<open>A host date object holds its time value.\<close>

datatype Date = DateObj (getTime: number)

text \<open>
  What the library takes from the host without computing it: the parser of date strings
  (\<^verbatim>\<open>new Date(s).getTime()\<close>) and the conversion of a number to a string (\<^verbatim>\<open>n + ''\<close>).
\<close>

record host =
  Date_parse :: "string \<Rightarrow> number"
  Number_toString :: "number \<Rightarrow> string"

subsection \<open>TimePoint\<close>

record TimePoint =
  unixEpoch :: TimePeriod

record TimePointDescription =
  year :: number
  month :: number
  day :: number
  hour :: number
  minute :: number
  second :: number
  timezone :: string

datatype error = Error string | RangeError string

datatype TimePoint_input =
  InString string
| InDate Date
| InNumber number
| InPeriod TimePeriod
| InEpoch "TimeUnit obj"
| InDescription TimePointDescription

text \<open>\<^verbatim>\<open>s.padStart(2, '0')\<close>\<close>

definition padStart2 :: "string \<Rightarrow> string" where
  "padStart2 s = replicate (2 - length s) (CHR ''0'') @ s"

definition invalid_descriptor :: error where
  "invalid_descriptor =
     Error ''Invalid time descriptor (non-integral values are only allowed for 'second')''"

fun new_TimePoint :: "host \<Rightarrow> TimePoint_input \<Rightarrow> error + TimePoint" where
  "new_TimePoint h (InString s) =
     Inr \<lparr>unixEpoch = new_TimePeriod (OfNumber (Date_parse h s))\<rparr>"
| "new_TimePoint h (InDate d) = Inr \<lparr>unixEpoch = new_TimePeriod (OfNumber (getTime d))\<rparr>"
| "new_TimePoint h (InNumber n) = Inr \<lparr>unixEpoch = new_TimePeriod (OfNumber n)\<rparr>"
| "new_TimePoint h (InPeriod p) = Inr \<lparr>unixEpoch = p\<rparr>"
| "new_TimePoint h (InEpoch b) = Inr \<lparr>unixEpoch = new_TimePeriod (OfBreakdown b)\<rparr>"
| "new_TimePoint h (InDescription input) =
     (if list_ex (\<lambda>v. js_gt (js_rem v (Fin 1)) (Fin 0))
           [year input, month input, day input, hour input, minute input]
      then Inl invalid_descriptor
      else if js_lt (month input) (Fin 1) \<or> js_gt (month input) (Fin 12)
      then Inl (RangeError ''Invalid month'')
      else let maxDay = Date_day0_getDate (year input) (month input) in
      if js_lt (day input) (Fin 1) \<or> js_gt (day input) maxDay
      then Inl (RangeError ''Invalid day'')
      else if js_lt (hour input) (Fin 0) \<or> js_ge (hour input) (Fin 24)
      then Inl (RangeError ''Invalid hour'')
      else if js_lt (minute input) (Fin 0) \<or> js_ge (minute input) (Fin 60)
      then Inl (RangeError ''Invalid minute'')
      else if js_lt (second input) (Fin 0) \<or> js_ge (second input) (Fin 60)
      then Inl (RangeError ''Invalid second'')
      else
        (let pad = (\<lambda>n. padStart2 (Number_toString h n))
         in Inr \<lparr>unixEpoch = new_TimePeriod (OfNumber (Date_parse h
              (Number_toString h (year input) @ ''-'' @ pad (month input) @ ''-'' @
               pad (day input) @ '' '' @ pad (hour input) @ '':'' @ pad (minute input) @
               '':'' @ pad (second input) @ '' '' @ timezone input)))\<rparr>))"

text \<open>
  The earlier revision checks the day against a fixed table, \<^verbatim>\<open>maxDay[month - 1]\<close>, with
  the remark \<^verbatim>\<open>//? todo special feb logic?\<close>. An index that is no element of the array
  gives \<^verbatim>\<open>undefined\<close>, which compares as NaN.
\<close>

definition maxDay_v1 :: "real list" where
  "maxDay_v1 = [31, 29, 31, 30, 31, 30, 31, 31, 30, 31, 30, 31]"

fun maxDay_v1_at :: "number \<Rightarrow> number" where
  "maxDay_v1_at (Fin i) =
     (if i = of_int \<lfloor>i\<rfloor> \<and> 0 \<le> i \<and> i < real (length maxDay_v1)
      then Fin (maxDay_v1 ! nat \<lfloor>i\<rfloor>)
      else NaN)"
| "maxDay_v1_at x = NaN"

definition new_TimePoint_v1 :: "host \<Rightarrow> TimePointDescription \<Rightarrow> error + TimePoint" where
  "new_TimePoint_v1 h input =
     (if list_ex (\<lambda>v. js_gt (js_rem v (Fin 1)) (Fin 0))
           [year input, month input, day input, hour input, minute input]
      then Inl invalid_descriptor
      else if js_lt (month input) (Fin 1) \<or> js_gt (month input) (Fin 12)
      then Inl (RangeError ''Invalid month'')
      else if js_lt (day input) (Fin 1) \<or>
              js_gt (day input) (maxDay_v1_at (js_sub (month input) (Fin 1)))
      then Inl (RangeError ''Invalid day'')
      else if js_lt (hour input) (Fin 0) \<or> js_ge (hour input) (Fin 24)
      then Inl (RangeError ''Invalid hour'')
      else if js_lt (minute input) (Fin 0) \<or> js_ge (minute input) (Fin 60)
      then Inl (RangeError ''Invalid minute'')
      else if js_lt (second input) (Fin 0) \<or> js_ge (second input) (Fin 60)
      then Inl (RangeError ''Invalid second'')
      else
        (let pad = (\<lambda>n. padStart2 (Number_toString h n))
         in Inr \<lparr>unixEpoch = new_TimePeriod (OfNumber (Date_parse h
              (pad (year input) @ ''-'' @ pad (month input) @ ''-'' @
               pad (day input) @ '' '' @ pad (hour input) @ '':'' @ pad (minute input) @
               '':'' @ pad (second input) @ '' '' @ timezone input)))\<rparr>))"

text \<open>An argument that is a TimePoint or a host date object.\<close>

datatype point_or_date = Point TimePoint | HostDate Date

fun epoch_ms :: "point_or_date \<Rightarrow> number" where
  "epoch_ms (HostDate d) = getTime d"
| "epoch_ms (Point p) = asMilliseconds (unixEpoch p)"

definition isBefore :: "TimePoint \<Rightarrow> point_or_date \<Rightarrow> bool" where
  "isBefore this when = js_lt (asMilliseconds (unixEpoch this)) (epoch_ms when)"

definition isAfter :: "TimePoint \<Rightarrow> point_or_date \<Rightarrow> bool" where
  "isAfter this when = js_gt (asMilliseconds (unixEpoch this)) (epoch_ms when)"

definition difference :: "TimePoint \<Rightarrow> point_or_date \<Rightarrow> TimePeriod" where
  "difference this time =
     (let timeMs = epoch_ms time
      in new_TimePeriod (OfNumber (js_sub timeMs (asMilliseconds (unixEpoch this)))))"

text \<open>\<^verbatim>\<open>TimePoint.now()\<close>, where \<open>clock\<close> is what \<^verbatim>\<open>Date.now()\<close> returns.\<close>

definition TimePoint_now :: "host \<Rightarrow> number \<Rightarrow> error + TimePoint" where
  "TimePoint_now h clock = new_TimePoint h (InNumber clock)"

subsection \<open>atTime\<close>

text \<open>
  A call of \<^verbatim>\<open>setTimeout\<close> is recorded with its handler and its delay. The handler is the
  callback \<^verbatim>\<open>func\<close> itself or the closure \<^verbatim>\<open>() => atTime(time, func)\<close>, which holds the
  target it was made with. \<^verbatim>\<open>atTime\<close> returns the calls of \<^verbatim>\<open>setTimeout\<close> it made, in
  order, or the error it threw.
\<close>

datatype task = Func | Again point_or_date

record setTimeout_call =
  handler :: task
  delay :: number

definition atTime :: "host \<Rightarrow> number \<Rightarrow> point_or_date \<Rightarrow> error + setTimeout_call list" where
  "atTime h clock time =
     (case TimePoint_now h clock of
        Inl e \<Rightarrow> Inl e
      | Inr now \<Rightarrow>
          (let diff = difference now time
           in if js_lt (asSeconds diff) (Fin 30)
              then Inr [\<lparr>handler = Func, delay = asMilliseconds diff\<rparr>]
              else Inr [\<lparr>handler = Again time, delay = Fin 30000\<rparr>]))"

text \<open>
  The host timer runs a handler once, no earlier than its delay after the call; a delay
  that is negative or no number counts as 0. In a chain of timers the \<open>k\<close>-th one runs
  \<open>late k\<close> milliseconds after it is due. \<open>chain\<close> follows \<^verbatim>\<open>atTime\<close> from one timer to the
  next until the callback runs, and returns the number of timers that re-entered \<^verbatim>\<open>atTime\<close>
  and the time at which the callback ran; \<open>None\<close> when the fuel is used up before.
\<close>

definition timer_due :: "real \<Rightarrow> number \<Rightarrow> real" where
  "timer_due clock d = clock + (case d of Fin x \<Rightarrow> max 0 x | _ \<Rightarrow> 0)"

fun chain ::
  "host \<Rightarrow> (nat \<Rightarrow> real) \<Rightarrow> nat \<Rightarrow> nat \<Rightarrow> real \<Rightarrow> point_or_date \<Rightarrow> (nat \<times> real) option" where
  "chain h late 0 k clock time = None"
| "chain h late (Suc fuel) k clock time =
     (case atTime h (Fin clock) time of
        Inr [c] \<Rightarrow>
          (let fired = timer_due clock (delay c) + late k
           in case handler c of
                Func \<Rightarrow> Some (k, fired)
              | Again time' \<Rightarrow> chain h late fuel (Suc k) fired time')
      | _ \<Rightarrow> None)"

text \<open>
  Two hosts to run examples on: one whose parser knows no date, and the lateness of a host
  all of whose timers are on time but the first, which is \<open>x\<close> milliseconds late.
\<close>

definition plain_host :: host where
  "plain_host = \<lparr>Date_parse = (\<lambda>s. NaN), Number_toString = (\<lambda>n. [])\<rparr>"

definition late_first :: "real \<Rightarrow> nat \<Rightarrow> real" where
  "late_first x k = (if k = 0 then x else 0)"

section \<open>Properties\<close>

subsection \<open>TimePoint.difference\<close>

text \<open>
  Claim C8. For a TimePoint \<open>a\<close>, the milliseconds of \<open>a.difference(b)\<close> are the epoch
  milliseconds of \<open>b\<close> minus those of \<open>a\<close>, where the epoch milliseconds of a TimePoint \<open>b\<close>
  are those of its \<open>unixEpoch\<close> and the ones of a host date object \<open>d\<close> are \<open>d.getTime()\<close>; and
  they are positive exactly when \<open>b\<close> is later than \<open>a\<close>, that is when the epoch milliseconds
  of \<open>a\<close> are less than those of \<open>b\<close>.
\<close>

theorem difference_is_other_minus_this:
  "asMilliseconds (difference a (Point b)) =
     js_sub (asMilliseconds (unixEpoch b)) (asMilliseconds (unixEpoch a))
   \<and> asMilliseconds (difference a (HostDate d)) =
     js_sub (getTime d) (asMilliseconds (unixEpoch a))
   \<and> (js_gt (asMilliseconds (difference a (Point b))) (Fin 0) \<longleftrightarrow>
        js_lt (asMilliseconds (unixEpoch a)) (asMilliseconds (unixEpoch b)))
   \<and> (js_gt (asMilliseconds (difference a (HostDate d))) (Fin 0) \<longleftrightarrow>
        js_lt (asMilliseconds (unixEpoch a)) (getTime d))"
  by (cases "asMilliseconds (unixEpoch b)"; cases "getTime d"; cases "asMilliseconds (unixEpoch a)")
     (simp_all add: difference_def js_gt_def js_sub_def)

theorem difference_is_other_minus_this_witness:
  "asMilliseconds (difference \<lparr>unixEpoch = \<lparr>asMilliseconds = Fin 1000\<rparr>\<rparr>
     (Point \<lparr>unixEpoch = \<lparr>asMilliseconds = Fin 4000\<rparr>\<rparr>)) = Fin 3000
   \<and> asMilliseconds (difference \<lparr>unixEpoch = \<lparr>asMilliseconds = Fin 1000\<rparr>\<rparr>
     (HostDate (DateObj (Fin 250)))) = Fin (- 750)
   \<and> js_gt (asMilliseconds (difference \<lparr>unixEpoch = \<lparr>asMilliseconds = Fin 1000\<rparr>\<rparr>
     (Point \<lparr>unixEpoch = \<lparr>asMilliseconds = Fin 4000\<rparr>\<rparr>))) (Fin 0)
   \<and> \<not> js_gt (asMilliseconds (difference \<lparr>unixEpoch = \<lparr>asMilliseconds = Fin 1000\<rparr>\<rparr>
     (HostDate (DateObj (Fin 250))))) (Fin 0)"
  using difference_is_other_minus_this [of "\<lparr>unixEpoch = \<lparr>asMilliseconds = Fin 1000\<rparr>\<rparr>"
      "\<lparr>unixEpoch = \<lparr>asMilliseconds = Fin 4000\<rparr>\<rparr>" "DateObj (Fin 250)"]
  by (simp add: js_sub_def js_gt_def difference_def)

subsection \<open>TimePeriod.equals\<close>

text \<open>
  Claim C9. \<open>d.equals(d)\<close> is true exactly when the milliseconds of \<open>d\<close> are not NaN, and a
  TimePeriod with NaN milliseconds can be built: by \<^verbatim>\<open>new TimePeriod(NaN)\<close> and by
  \<^verbatim>\<open>TimePeriod.milliseconds(0).divide(0)\<close>.
\<close>

theorem equals_reflexive_unless_NaN:
  "(equals d d \<longleftrightarrow> asMilliseconds d \<noteq> NaN)
   \<and> asMilliseconds (new_TimePeriod (OfNumber NaN)) = NaN
   \<and> asMilliseconds (divide (TimePeriod_milliseconds (Fin 0)) (Fin 0)) = NaN"
  by (cases "asMilliseconds d") (simp_all add: equals_def divide_def TimePeriod_milliseconds_def)

theorem equals_reflexive_unless_NaN_witness:
  "\<not> equals (divide (TimePeriod_milliseconds (Fin 0)) (Fin 0))
       (divide (TimePeriod_milliseconds (Fin 0)) (Fin 0))
   \<and> equals (TimePeriod_milliseconds (Fin 90)) (TimePeriod_milliseconds (Fin 90))"
  using equals_reflexive_unless_NaN [of "divide (TimePeriod_milliseconds (Fin 0)) (Fin 0)"]
    equals_reflexive_unless_NaN [of "TimePeriod_milliseconds (Fin 90)"]
  by (simp add: TimePeriod_milliseconds_def)

subsection \<open>atTime\<close>

lemma asSeconds_nonpos:
  "js_le x (Fin 0) \<Longrightarrow> js_lt (js_div x (Fin 1000)) (Fin 30)"
  by (cases x) (auto simp: js_le_def)

lemma asSeconds_lt_30:
  "js_lt (js_div x (Fin 1000)) (Fin 30) \<Longrightarrow> js_lt x (Fin 30000)"
  by (cases x) simp_all

lemma atTime_unfold:
  "atTime h clock time =
    (let diff = js_sub (epoch_ms time) clock
     in if js_lt (js_div diff (Fin 1000)) (Fin 30)
        then Inr [\<lparr>handler = Func, delay = diff\<rparr>]
        else Inr [\<lparr>handler = Again time, delay = Fin 30000\<rparr>])"
  by (simp add: atTime_def TimePoint_now_def difference_def asSeconds_def Let_def)

lemma chain_65_seconds:
  assumes t: "epoch_ms time = Fin (now + 65000)"
    and l0: "0 \<le> late 0" "late 0 \<le> 5000" and l1: "0 \<le> late 1" and l2: "0 \<le> late 2"
  shows "\<exists>fired. chain h late (3 + n) 0 now time = Some (2, fired) \<and> now + 65000 \<le> fired"
proof -
  have s0: "atTime h (Fin now) time = Inr [\<lparr>handler = Again time, delay = Fin 30000\<rparr>]"
    using t by (simp add: atTime_unfold js_sub_def)
  define c1 where "c1 = now + 30000 + late 0"
  have s1: "atTime h (Fin c1) time = Inr [\<lparr>handler = Again time, delay = Fin 30000\<rparr>]"
    using t l0 by (simp add: atTime_unfold js_sub_def c1_def)
  define c2 where "c2 = c1 + 30000 + late 1"
  have s2: "atTime h (Fin c2) time = Inr [\<lparr>handler = Func, delay = Fin (now + 65000 - c2)\<rparr>]"
    using t l0 l1 by (simp add: atTime_unfold js_sub_def c1_def c2_def)
  have "chain h late (3 + n) 0 now time =
          Some (2, timer_due c2 (Fin (now + 65000 - c2)) + late 2)"
    using s0 s1 s2
    by (simp add: numeral_3_eq_3 numeral_2_eq_2 timer_due_def c1_def c2_def Let_def)
  moreover have "now + 65000 \<le> timer_due c2 (Fin (now + 65000 - c2)) + late 2"
    using l2 by (simp add: timer_due_def max_def)
  ultimately show ?thesis by blast
qed

lemma chain_65_seconds_late:
  assumes t: "epoch_ms time = Fin (now + 65000)"
    and l0: "5000 < late 0" and l1: "0 \<le> late 1"
  shows "\<exists>fired. chain h late (2 + n) 0 now time = Some (1, fired) \<and> now + 65000 \<le> fired"
proof -
  have s0: "atTime h (Fin now) time = Inr [\<lparr>handler = Again time, delay = Fin 30000\<rparr>]"
    using t by (simp add: atTime_unfold js_sub_def)
  define c1 where "c1 = now + 30000 + late 0"
  have s1: "atTime h (Fin c1) time = Inr [\<lparr>handler = Func, delay = Fin (now + 65000 - c1)\<rparr>]"
    using t l0 by (simp add: atTime_unfold js_sub_def c1_def)
  have "chain h late (2 + n) 0 now time =
          Some (1, timer_due c1 (Fin (now + 65000 - c1)) + late 1)"
    using s0 s1 by (simp add: numeral_2_eq_2 timer_due_def c1_def Let_def)
  moreover have "now + 65000 \<le> timer_due c1 (Fin (now + 65000 - c1)) + late 1"
    using l1 by (simp add: timer_due_def max_def)
  ultimately show ?thesis by blast
qed

text \<open>
  Claim C4, as stated, fails in its last part on a host whose first timer is late, which
  the specification allows (a timer may fire arbitrarily late): with the target 65 seconds
  away and the first timer 5001 ms late, the second call of \<^verbatim>\<open>atTime\<close> finds 29999 ms left
  and arms the callback, so the chain re-enters \<^verbatim>\<open>atTime\<close> once, not twice.
\<close>

theorem atTime_late_first_timer_counterexample:
  "chain plain_host (late_first 5001) 3 0 1000 (HostDate (DateObj (Fin 66000))) = Some (1, 66000)"
  by (simp add: numeral_3_eq_3 atTime_unfold late_first_def timer_due_def js_sub_def Let_def)

text \<open>
  Claim C4, amended. With \<open>diff\<close> the target minus the clock, \<^verbatim>\<open>atTime\<close> arms the host timer
  once: for \<open>diff\<close> milliseconds with the callback when \<open>diff\<close> is less than 30 seconds, and
  otherwise for 30000 milliseconds with the closure that calls \<^verbatim>\<open>atTime\<close> again with the
  same target, which reads the clock anew. So a timer that runs the callback has a delay
  below 30000 milliseconds. For a target 65 seconds away, on a host whose timers are never
  early, the chain re-enters \<^verbatim>\<open>atTime\<close> twice before the callback runs when the first timer
  is at most 5 seconds late, and once when it is later than that; in both cases the
  callback runs no earlier than the target, and three rounds of fuel are enough for the
  chain to finish.
\<close>

theorem atTime_reanchors_every_30_seconds:
  "atTime h clock time =
     Inr [if js_lt (js_div (js_sub (epoch_ms time) clock) (Fin 1000)) (Fin 30)
          then \<lparr>handler = Func, delay = js_sub (epoch_ms time) clock\<rparr>
          else \<lparr>handler = Again time, delay = Fin 30000\<rparr>]
   \<and> (\<forall>c. atTime h clock time = Inr [c] \<and> handler c = Func \<longrightarrow> js_lt (delay c) (Fin 30000))
   \<and> (epoch_ms time = Fin (now + 65000) \<and> (\<forall>k. 0 \<le> late k) \<and> late 0 \<le> 5000 \<longrightarrow>
        (\<exists>fired. chain h late (3 + n) 0 now time = Some (2, fired) \<and> now + 65000 \<le> fired))
   \<and> (epoch_ms time = Fin (now + 65000) \<and> (\<forall>k. 0 \<le> late k) \<and> 5000 < late 0 \<longrightarrow>
        (\<exists>fired. chain h late (3 + n) 0 now time = Some (1, fired) \<and> now + 65000 \<le> fired))"
proof (intro conjI allI impI)
  show "atTime h clock time =
     Inr [if js_lt (js_div (js_sub (epoch_ms time) clock) (Fin 1000)) (Fin 30)
          then \<lparr>handler = Func, delay = js_sub (epoch_ms time) clock\<rparr>
          else \<lparr>handler = Again time, delay = Fin 30000\<rparr>]"
    by (simp add: atTime_unfold Let_def)
next
  fix c assume "atTime h clock time = Inr [c] \<and> handler c = Func"
  then show "js_lt (delay c) (Fin 30000)"
    by (auto simp: atTime_unfold Let_def asSeconds_lt_30 split: if_splits)
next
  assume "epoch_ms time = Fin (now + 65000) \<and> (\<forall>k. 0 \<le> late k) \<and> late 0 \<le> 5000"
  then show "\<exists>fired. chain h late (3 + n) 0 now time = Some (2, fired) \<and> now + 65000 \<le> fired"
    using chain_65_seconds [of time now late h n] by blast
next
  assume "epoch_ms time = Fin (now + 65000) \<and> (\<forall>k. 0 \<le> late k) \<and> 5000 < late 0"
  then show "\<exists>fired. chain h late (3 + n) 0 now time = Some (1, fired) \<and> now + 65000 \<le> fired"
    using chain_65_seconds_late [of time now late h "Suc n"] by (simp add: numeral_3_eq_3)
qed

theorem atTime_reanchors_every_30_seconds_witness:
  "epoch_ms (HostDate (DateObj (Fin 66000))) = Fin (1000 + 65000)
   \<and> (\<forall>k::nat. (0::real) \<le> 0) \<and> (0::real) \<le> 5000
   \<and> atTime plain_host (Fin 1000) (HostDate (DateObj (Fin 66000))) =
       Inr [\<lparr>handler = Again (HostDate (DateObj (Fin 66000))), delay = Fin 30000\<rparr>]
   \<and> (\<exists>fired. chain plain_host (\<lambda>k. 0) 3 0 1000
         (HostDate (DateObj (Fin 66000))) = Some (2, fired) \<and> 66000 \<le> fired)
   \<and> (\<forall>k. 0 \<le> late_first 5001 k) \<and> 5000 < late_first 5001 0
   \<and> (\<exists>fired. chain plain_host (late_first 5001) 3 0 1000
         (HostDate (DateObj (Fin 66000))) = Some (1, fired) \<and> 66000 \<le> fired)"
  using atTime_reanchors_every_30_seconds
    [of plain_host "Fin 1000" "HostDate (DateObj (Fin 66000))" 1000 "\<lambda>k. 0" 0]
    atTime_reanchors_every_30_seconds
    [of plain_host "Fin 1000" "HostDate (DateObj (Fin 66000))" 1000 "late_first 5001" 0]
  by (simp add: js_sub_def late_first_def)

text \<open>
  Claim C10. For every target, also one at or before the current instant, \<^verbatim>\<open>atTime\<close> throws
  nothing and arms exactly one host timer; when the difference is zero or negative the
  timer holds the callback itself, with the difference, which is not positive, as its delay.
\<close>

theorem atTime_arms_one_timer:
  "(\<exists>c. atTime h clock time = Inr [c])
   \<and> (js_le (js_sub (epoch_ms time) clock) (Fin 0) \<longrightarrow>
        atTime h clock time = Inr [\<lparr>handler = Func, delay = js_sub (epoch_ms time) clock\<rparr>])"
  by (simp add: atTime_unfold Let_def asSeconds_nonpos)

theorem atTime_arms_one_timer_witness:
  "js_le (js_sub (epoch_ms (HostDate (DateObj (Fin 500)))) (Fin 1000)) (Fin 0)
   \<and> atTime \<lparr>Date_parse = (\<lambda>s. NaN), Number_toString = (\<lambda>n. [])\<rparr> (Fin 1000)
       (HostDate (DateObj (Fin 500))) = Inr [\<lparr>handler = Func, delay = Fin (- 500)\<rparr>]"
  using atTime_arms_one_timer
    [of "\<lparr>Date_parse = (\<lambda>s. NaN), Number_toString = (\<lambda>n. [])\<rparr>" "Fin 1000"
        "HostDate (DateObj (Fin 500))"]
  by (simp add: js_sub_def js_le_def)

subsection \<open>The decomposition\<close>

text \<open>The divisors are positive and no two units share one.\<close>

lemma divisors_inj: "divisors a = divisors b \<Longrightarrow> a = b"
  by (cases a; cases b) simp_all

lemma divisors_pos: "0 < divisors u"
  by (cases u) simp_all

lemma insort_cmp_divisors:
  "insort_cmp (\<lambda>a b. divisors b - divisors a) x xs = insort_key (\<lambda>u. - divisors u) x xs"
  by (induction xs) simp_all

lemma Array_sort_divisors:
  "Array_sort (\<lambda>a b. divisors b - divisors a) xs = significance_order xs"
  by (induction xs) (simp_all add: Array_sort_def significance_order_def insort_cmp_divisors)

lemma significance_order_perm:
  assumes "mset xs = mset ys"
  shows "significance_order xs = significance_order ys"
  unfolding significance_order_def
  by (rule sort_key_eq_sort_key [OF assms]) (auto simp: inj_on_def dest: divisors_inj)

lemma js_ne_zero: "js_ne x (Fin 0) \<longleftrightarrow> x \<noteq> Fin 0"
  by (cases x) (simp_all add: js_ne_def)

lemma update_fresh: "k \<notin> fst ` set al \<Longrightarrow> AList.update k v al = al @ [(k, v)]"
  by (induction al) auto

lemma breakdown_each_keys:
  "map fst (snd (breakdown_each iz fu (r, res) u)) = map fst res
   \<or> (u \<notin> set (map fst res) \<and> map fst (snd (breakdown_each iz fu (r, res) u)) = map fst res @ [u])"
  by (simp add: breakdown_each_def Let_def AList.update_keys)

lemma fold_keys_descending:
  assumes "sorted (map (\<lambda>u. - divisors u) us)"
    and "sorted_wrt (\<lambda>a b. divisors b < divisors a) (map fst res)"
    and "\<forall>k \<in> set (map fst res). \<forall>u \<in> set us. divisors u \<le> divisors k"
  shows "sorted_wrt (\<lambda>a b. divisors b < divisors a)
           (map fst (snd (foldl (breakdown_each iz fu) (r, res) us)))"
  using assms
proof (induction us arbitrary: r res)
  case Nil
  then show ?case by simp
next
  case (Cons u us)
  obtain r' res' where st: "breakdown_each iz fu (r, res) u = (r', res')"
    by (cases "breakdown_each iz fu (r, res) u")
  have keys: "map fst res' = map fst res \<or> (u \<notin> set (map fst res) \<and> map fst res' = map fst res @ [u])"
    using breakdown_each_keys [of iz fu r res u] st by simp
  have le: "\<forall>v \<in> set us. divisors v \<le> divisors u"
    using Cons.prems(1) by auto
  have s': "sorted_wrt (\<lambda>a b. divisors b < divisors a) (map fst res')"
  proof -
    { assume a: "u \<notin> set (map fst res)" "map fst res' = map fst res @ [u]"
      have "\<forall>k \<in> set (map fst res). divisors u < divisors k"
      proof
        fix k assume k: "k \<in> set (map fst res)"
        then have "divisors u \<le> divisors k" using Cons.prems(3) by auto
        moreover have "divisors u \<noteq> divisors k" using k a(1) divisors_inj by metis
        ultimately show "divisors u < divisors k" by simp
      qed
      then have ?thesis using a(2) Cons.prems(2) by (simp add: sorted_wrt_append) }
    then show ?thesis using keys Cons.prems(2) by auto
  qed
  have sub: "set (map fst res') \<subseteq> insert u (set (map fst res))"
  proof -
    from keys have "set (map fst res') = set (map fst res)
        \<or> set (map fst res') = set (map fst res @ [u])"
      by metis
    then show ?thesis by auto
  qed
  have b': "\<forall>k \<in> set (map fst res'). \<forall>v \<in> set us. divisors v \<le> divisors k"
  proof (intro ballI)
    fix k v assume k: "k \<in> set (map fst res')" and v: "v \<in> set us"
    from k sub have "k = u \<or> k \<in> set (map fst res)" by blast
    then show "divisors v \<le> divisors k"
    proof
      assume "k = u" then show ?thesis using le v by simp
    next
      assume "k \<in> set (map fst res)"
      then show ?thesis using Cons.prems(3) v by auto
    qed
  qed
  have "sorted (map (\<lambda>u. - divisors u) us)" using Cons.prems(1) by simp
  from Cons.IH [OF this s' b'] show ?case by (simp add: st)
qed

lemma fold_is_spec:
  assumes "distinct us" and "set us \<inter> fst ` set res = {}"
    and "us \<noteq> [] \<longrightarrow> fu = (if fl then Some (last us) else None)"
  shows "snd (foldl (breakdown_each iz fu) (r, res) us) =
         res @ filter (\<lambda>(unit, amount). iz \<or> amount \<noteq> Fin 0) (spec_amounts fl r us)"
  using assms
proof (induction fl r us arbitrary: res rule: spec_amounts.induct)
  case (1 fl remaining)
  then show ?case by simp
next
  case (2 fl remaining unit)
  then show ?case
    by (auto simp: breakdown_each_def Let_def js_ne_zero update_fresh)
next
  case (3 fl remaining unit v va)
  let ?a = "Math_floor (js_div remaining (Fin (divisors unit)))"
  let ?r = "js_sub remaining (js_mul ?a (Fin (divisors unit)))"
  let ?res = "if iz \<or> ?a \<noteq> Fin 0 then res @ [(unit, ?a)] else res"
  have ne: "Some unit \<noteq> fu" using "3.prems" by auto
  have fresh: "unit \<notin> fst ` set res" using "3.prems"(2) by auto
  have step: "breakdown_each iz fu (remaining, res) unit = (?r, ?res)"
    using ne fresh by (simp add: breakdown_each_def Let_def js_ne_zero update_fresh)
  have d: "distinct (v # va)" using "3.prems"(1) by simp
  have dj: "set (v # va) \<inter> fst ` set ?res = {}" using "3.prems"(1,2) by auto
  have fu: "v # va \<noteq> [] \<longrightarrow> fu = (if fl then Some (last (v # va)) else None)"
    using "3.prems"(3) by simp
  from "3.IH" [OF refl d dj fu] show ?case
    by (simp add: step Let_def)
qed

lemma distinct_significance_order: "distinct (significance_order us) = distinct us"
  by (simp add: significance_order_def)

lemma breakdown_is_spec_breakdown:
  assumes "distinct (fst (breakdown_args units options))"
  shows "breakdown this units options =
     spec_breakdown (asMilliseconds this) (fst (breakdown_args units options))
       (floatLast (snd (breakdown_args units options)))
       (includeZero (snd (breakdown_args units options)))"
proof -
  obtain us fo where a: "breakdown_args units options = (us, fo)"
    by (cases "breakdown_args units options")
  have d: "distinct (significance_order us)" using assms a by (simp add: distinct_significance_order)
  show ?thesis
    using fold_is_spec [OF d, of "[]" "if floatLast fo then Array_at_last (significance_order us) else None"
        "floatLast fo" "includeZero fo" "asMilliseconds this"]
    by (simp add: breakdown_def a Array_sort_divisors spec_breakdown_def Array_at_last_def)
qed

lemma sorted_le_last: "sorted xs \<Longrightarrow> x \<in> set xs \<Longrightarrow> (x::real) \<le> last xs"
  by (induction xs) auto

lemma divisors_ge_1: "1 \<le> divisors u"
  by (cases u) simp_all

lemma significance_order_Nil: "significance_order us = [] \<longleftrightarrow> us = []"
  by (metis significance_order_def set_sort set_empty sort_key_simps(1))

lemma last_significance_order:
  assumes "Milliseconds \<in> set us"
  shows "last (significance_order us) = Milliseconds"
proof -
  let ?s = "significance_order us"
  have ne: "?s \<noteq> []" using assms by (auto simp: significance_order_Nil)
  have "sorted (map (\<lambda>u. - divisors u) ?s)" by (simp add: significance_order_def)
  moreover have "- divisors Milliseconds \<in> set (map (\<lambda>u. - divisors u) ?s)"
    using assms by (force simp: significance_order_def)
  ultimately have "- divisors Milliseconds \<le> last (map (\<lambda>u. - divisors u) ?s)"
    by (rule sorted_le_last)
  then have "divisors (last ?s) \<le> 1" using ne by (simp add: last_map)
  then have "divisors (last ?s) = divisors Milliseconds"
    using divisors_ge_1 [of "last ?s"] by simp
  then show ?thesis by (rule divisors_inj)
qed

lemma divisors_whole: "u \<noteq> Microfortnights \<Longrightarrow> divisors u = of_int \<lfloor>divisors u\<rfloor>"
  by (cases u) simp_all

lemma whole_divisor_pos: "0 < \<lfloor>divisors u\<rfloor>"
  by (cases u) simp_all

lemma divisors_dvd:
  "u \<noteq> Microfortnights \<Longrightarrow> w \<noteq> Microfortnights \<Longrightarrow> divisors w \<le> divisors u
     \<Longrightarrow> \<lfloor>divisors w\<rfloor> dvd \<lfloor>divisors u\<rfloor>"
  by (cases u; cases w) simp_all

lemma floor_step:
  fixes r d :: int
  assumes "0 < d"
  shows "Math_floor (js_div (Fin (of_int r)) (Fin (of_int d))) = Fin (of_int (r div d))"
    and "js_sub (Fin (of_int r)) (js_mul (Fin (of_int (r div d))) (Fin (of_int d))) =
         Fin (of_int (r mod d))"
proof -
  show "Math_floor (js_div (Fin (of_int r)) (Fin (of_int d))) = Fin (of_int (r div d))"
    using assms by (simp add: floor_divide_of_int_eq)
  have "r - r div d * d = r mod d" by (simp add: minus_div_mult_eq_mod)
  then have "(of_int r :: real) - of_int (r div d) * of_int d = of_int (r mod d)"
    by (metis of_int_diff of_int_mult)
  then show "js_sub (Fin (of_int r)) (js_mul (Fin (of_int (r div d))) (Fin (of_int d))) =
         Fin (of_int (r mod d))"
    by (simp add: js_sub_def)
qed

lemma total_whole_amounts:
  assumes "us \<noteq> []" and "Microfortnights \<notin> set us"
    and "sorted (map (\<lambda>u. - divisors u) us)"
  shows "foldl (\<lambda>sum (unit, amount). js_add sum (js_mul (Fin (divisors unit)) amount))
           (Fin (of_int acc)) (spec_amounts False (Fin (of_int r)) us) =
         Fin (of_int (acc + r - r mod \<lfloor>divisors (last us)\<rfloor>))"
  using assms
proof (induction us arbitrary: r acc)
  case Nil
  then show ?case by simp
next
  case (Cons u us)
  define d where "d = \<lfloor>divisors u\<rfloor>"
  have "u \<noteq> Microfortnights" using Cons.prems(2) by auto
  then have du: "divisors u = of_int d" unfolding d_def by (rule divisors_whole)
  have dpos: "0 < d" using whole_divisor_pos [of u] by (simp add: d_def)
  have sum: "acc + d * (r div d) = acc + r - r mod d"
    by (simp add: algebra_simps minus_mod_eq_mult_div)
  show ?case
  proof (cases us)
    case Nil
    have "foldl (\<lambda>sum (unit, amount). js_add sum (js_mul (Fin (divisors unit)) amount))
           (Fin (of_int acc)) (spec_amounts False (Fin (of_int r)) [u]) =
          Fin (of_int (acc + d * (r div d)))"
      by (simp add: du floor_step [OF dpos] del: js_div.simps Math_floor.simps)
    also have "acc + d * (r div d) = acc + r - r mod d" by (rule sum)
    finally show ?thesis
      unfolding Nil by (simp only: last.simps d_def simp_thms if_True)
  next
    case (Cons v vs)
    then have ne: "us \<noteq> []" by simp
    have nmf: "Microfortnights \<notin> set us" using Cons.prems(2) by simp
    have srt: "sorted (map (\<lambda>u. - divisors u) us)" using Cons.prems(3) by simp
    define dl where "dl = \<lfloor>divisors (last us)\<rfloor>"
    have lin: "last us \<in> set us" using ne by simp
    have le: "divisors (last us) \<le> divisors u" using Cons.prems(3) lin by auto
    have "last us \<noteq> Microfortnights" using nmf lin by metis
    with \<open>u \<noteq> Microfortnights\<close> have dv: "dl dvd d"
      unfolding dl_def d_def using le by (rule divisors_dvd)
    have step: "spec_amounts False (Fin (of_int r)) (u # us) =
        (u, Fin (of_int (r div d))) # spec_amounts False (Fin (of_int (r mod d))) us"
      using Cons
      by (simp add: du floor_step [OF dpos] Let_def
          del: js_div.simps js_mul.simps Math_floor.simps)
    have "foldl (\<lambda>sum (unit, amount). js_add sum (js_mul (Fin (divisors unit)) amount))
           (Fin (of_int acc)) (spec_amounts False (Fin (of_int r)) (u # us)) =
          foldl (\<lambda>sum (unit, amount). js_add sum (js_mul (Fin (divisors unit)) amount))
           (Fin (of_int (acc + d * (r div d)))) (spec_amounts False (Fin (of_int (r mod d))) us)"
      by (simp add: step du)
    also have "\<dots> = Fin (of_int (acc + d * (r div d) + r mod d - r mod d mod dl))"
      unfolding dl_def by (rule Cons.IH [OF ne nmf srt])
    also have "r mod d mod dl = r mod dl" using dv by (rule mod_mod_cancel)
    also have "acc + d * (r div d) + r mod d - r mod dl = acc + r - r mod dl"
      using sum by simp
    also have "dl = \<lfloor>divisors (last (u # us))\<rfloor>" using ne by (simp add: dl_def)
    finally show ?thesis .
  qed
qed

text \<open>
  On a whole number of milliseconds that is not negative, and without microfortnights,
  every amount of the full breakdown is a whole number that is not negative, and
  \<open>amount * divisor\<close> is at most the number of milliseconds: no value of the run leaves the
  range of the whole numbers from 0 to the input.
\<close>

lemma spec_amounts_whole:
  assumes "0 \<le> r" and "Microfortnights \<notin> set us"
  shows "\<forall>(u, a) \<in> set (spec_amounts False (Fin (of_int r)) us).
           \<exists>k. a = Fin (of_int k) \<and> 0 \<le> k \<and> k * \<lfloor>divisors u\<rfloor> \<le> r"
  using assms
proof (induction us arbitrary: r)
  case Nil
  then show ?case by simp
next
  case (Cons u us)
  define d where "d = \<lfloor>divisors u\<rfloor>"
  have "u \<noteq> Microfortnights" using Cons.prems(2) by auto
  then have du: "divisors u = of_int d" unfolding d_def by (rule divisors_whole)
  have dpos: "0 < d" using whole_divisor_pos [of u] by (simp add: d_def)
  have k0: "0 \<le> r div d"
    using Cons.prems(1) dpos by (simp add: pos_imp_zdiv_nonneg_iff)
  have "r div d * d + r mod d = r" by (rule div_mult_mod_eq)
  moreover have "0 \<le> r mod d" using dpos by simp
  ultimately have k1: "r div d * d \<le> r" by linarith
  note k = k0 k1
  have m: "0 \<le> r mod d" "r mod d \<le> r"
    using Cons.prems(1) dpos by (simp_all add: zmod_le_nonneg_dividend)
  have hd: "\<exists>k. Fin (of_int (r div d)) = Fin (of_int k) \<and> 0 \<le> k \<and> k * \<lfloor>divisors u\<rfloor> \<le> r"
    using k by (intro exI [of _ "r div d"]) (simp add: d_def)
  show ?case
  proof (cases us)
    case Nil
    have "spec_amounts False (Fin (of_int r)) [u] = [(u, Fin (of_int (r div d)))]"
      by (simp add: du floor_step [OF dpos] del: js_div.simps Math_floor.simps)
    then show ?thesis using hd Nil by simp
  next
    case (Cons v vs)
    have step: "spec_amounts False (Fin (of_int r)) (u # us) =
        (u, Fin (of_int (r div d))) # spec_amounts False (Fin (of_int (r mod d))) us"
      using Cons
      by (simp add: du floor_step [OF dpos] Let_def
          del: js_div.simps js_mul.simps Math_floor.simps)
    have "Microfortnights \<notin> set us" using Cons.prems(2) by simp
    from Cons.IH [OF m(1) this]
    have "\<forall>(w, a) \<in> set (spec_amounts False (Fin (of_int (r mod d))) us).
           \<exists>k. a = Fin (of_int k) \<and> 0 \<le> k \<and> k * \<lfloor>divisors w\<rfloor> \<le> r"
      using m(2) by fastforce
    then show ?thesis using hd by (simp add: step)
  qed
qed

lemma breakdown_whole_amounts:
  assumes "0 \<le> n" and "distinct units" and "Microfortnights \<notin> set units"
  shows "\<forall>(u, a) \<in> set (breakdown \<lparr>asMilliseconds = Fin (of_int n)\<rparr> (UnitList units)
                \<lparr>floatLast_opt = Some False, includeZero_opt = Some True\<rparr>).
           \<exists>k. a = Fin (of_int k) \<and> 0 \<le> k \<and> k * \<lfloor>divisors u\<rfloor> \<le> n"
proof -
  have "breakdown \<lparr>asMilliseconds = Fin (of_int n)\<rparr> (UnitList units)
          \<lparr>floatLast_opt = Some False, includeZero_opt = Some True\<rparr> =
          spec_amounts False (Fin (of_int n)) (significance_order units)"
    using breakdown_is_spec_breakdown [of "UnitList units"
        "\<lparr>floatLast_opt = Some False, includeZero_opt = Some True\<rparr>"
        "\<lparr>asMilliseconds = Fin (of_int n)\<rparr>"] assms(2)
    by (simp add: spread_def spec_breakdown_def)
  moreover have "Microfortnights \<notin> set (significance_order units)"
    using assms(3) by (simp add: significance_order_def)
  ultimately show ?thesis using spec_amounts_whole [OF assms(1)] by simp
qed

text \<open>
  The earlier revision, which does not sort, depends on the order of the list: 90 seconds
  are 1 minute and 30 seconds for minutes, seconds, but 90 seconds and 0 minutes for
  seconds, minutes.
\<close>

lemma breakdown_v1_depends_on_order:
  "breakdown_v1 \<lparr>asMilliseconds = Fin 90000\<rparr> (UnitList [Minutes, Seconds])
      \<lparr>floatLast_opt = None, includeZero_opt = None\<rparr> = [(Minutes, Fin 1), (Seconds, Fin 30)]
   \<and> breakdown_v1 \<lparr>asMilliseconds = Fin 90000\<rparr> (UnitList [Seconds, Minutes])
      \<lparr>floatLast_opt = None, includeZero_opt = None\<rparr> = [(Seconds, Fin 90), (Minutes, Fin 0)]"
  by (simp add: breakdown_v1_def spread_def Array_at_last_def breakdown_each_def js_sub_def
      js_ne_def Let_def)

text \<open>
  Claim C1. For every TimePeriod, every list of units and every permutation of that list,
  \<^verbatim>\<open>breakdown\<close> gives the same result on both, and the keys of the result come in
  significance order, each divisor smaller than the one before.
\<close>

theorem breakdown_order_independent:
  assumes "mset units = mset units'"
  shows "breakdown this (UnitList units) options = breakdown this (UnitList units') options
    \<and> sorted_wrt (\<lambda>a b. divisors b < divisors a) (map fst (breakdown this (UnitList units) options))"
proof
  show "breakdown this (UnitList units) options = breakdown this (UnitList units') options"
    by (simp add: breakdown_def Array_sort_divisors significance_order_perm [OF assms])
next
  have "sorted (map (\<lambda>u. - divisors u) (significance_order units))"
    by (simp add: significance_order_def)
  then show "sorted_wrt (\<lambda>a b. divisors b < divisors a) (map fst (breakdown this (UnitList units) options))"
    by (simp add: breakdown_def Array_sort_divisors Let_def fold_keys_descending)
qed

theorem breakdown_order_independent_witness:
  "mset [Seconds, Minutes] = mset [Minutes, Seconds]
   \<and> breakdown \<lparr>asMilliseconds = Fin 90000\<rparr> (UnitList [Seconds, Minutes])
       \<lparr>floatLast_opt = None, includeZero_opt = None\<rparr> =
     breakdown \<lparr>asMilliseconds = Fin 90000\<rparr> (UnitList [Minutes, Seconds])
       \<lparr>floatLast_opt = None, includeZero_opt = None\<rparr>
   \<and> map fst (breakdown \<lparr>asMilliseconds = Fin 90000\<rparr> (UnitList [Seconds, Minutes])
       \<lparr>floatLast_opt = None, includeZero_opt = None\<rparr>) = [Minutes, Seconds]"
  using breakdown_order_independent [of "[Seconds, Minutes]" "[Minutes, Seconds]"
      "\<lparr>asMilliseconds = Fin 90000\<rparr>" "\<lparr>floatLast_opt = None, includeZero_opt = None\<rparr>"]
  by (simp add: breakdown_def spread_def Array_sort_def Array_at_last_def breakdown_each_def
      js_sub_def js_ne_def Let_def)

text \<open>
  Claim C3, as stated for every unit list, fails on a list that names a unit twice: the
  code finds the unit to float by its name, so with \<open>floatLast\<close> every occurrence of the last
  unit takes \<open>remaining / divisor\<close>. On 1500 ms and the list seconds, seconds the code answers
  seconds 1.5, where the first of the two units, which is not the last, would take the
  floor 1 and the last one 0.5.
\<close>

theorem breakdown_repeated_unit_counterexample:
  "breakdown \<lparr>asMilliseconds = Fin 1500\<rparr> (UnitList [Seconds, Seconds])
      \<lparr>floatLast_opt = Some True, includeZero_opt = None\<rparr> = [(Seconds, Fin (3/2))]
   \<and> spec_breakdown (Fin 1500) [Seconds, Seconds] True True =
       [(Seconds, Fin 1), (Seconds, Fin (1/2))]
   \<and> breakdown \<lparr>asMilliseconds = Fin 1500\<rparr> (UnitList [Seconds, Seconds])
      \<lparr>floatLast_opt = Some True, includeZero_opt = None\<rparr> \<noteq>
     spec_breakdown (Fin 1500) [Seconds, Seconds] True True"
  by (simp add: breakdown_def spread_def Array_sort_def Array_at_last_def breakdown_each_def
      spec_breakdown_def significance_order_def js_sub_def js_ne_def)

text \<open>
  Claim C3, amended. For every TimePeriod, every unit list without a repeated unit (the
  default list when none is given) and all option values, \<^verbatim>\<open>breakdown\<close> is the decomposition
  of the specification: in significance order every unit but the last takes the floor of
  \<open>remaining / divisor\<close> and leaves \<open>remaining - amount * divisor\<close>; the last unit takes
  \<open>remaining / divisor\<close> with \<open>floatLast\<close> and its floor without; an entry is in the result
  exactly when \<open>includeZero\<close> is set or its amount is not 0.
\<close>

theorem breakdown_follows_specification:
  assumes "distinct (fst (breakdown_args units options))"
  shows "breakdown this units options =
     spec_breakdown (asMilliseconds this) (fst (breakdown_args units options))
       (floatLast (snd (breakdown_args units options)))
       (includeZero (snd (breakdown_args units options)))"
  using assms by (rule breakdown_is_spec_breakdown)

theorem breakdown_follows_specification_witness:
  "distinct (fst (breakdown_args (UnitList [Minutes, Hours])
       \<lparr>floatLast_opt = Some True, includeZero_opt = None\<rparr>))
   \<and> breakdown \<lparr>asMilliseconds = Fin 5415000\<rparr> (UnitList [Minutes, Hours])
       \<lparr>floatLast_opt = Some True, includeZero_opt = None\<rparr> =
     [(Hours, Fin 1), (Minutes, Fin (121/4))]"
  using breakdown_follows_specification [of "UnitList [Minutes, Hours]"
      "\<lparr>floatLast_opt = Some True, includeZero_opt = None\<rparr>" "\<lparr>asMilliseconds = Fin 5415000\<rparr>"]
  by (simp add: spread_def spec_breakdown_def significance_order_def js_sub_def)

text \<open>
  Claim C7. Without a unit list the result of \<^verbatim>\<open>breakdown\<close> is the decomposition into days,
  hours, minutes, seconds and milliseconds with \<open>floatLast = true\<close> and \<open>includeZero = false\<close>;
  with a unit list it is the decomposition into that list with \<open>floatLast = false\<close> and
  \<open>includeZero = true\<close>; in both cases an option that is passed replaces its default. The
  decomposition is the one of the specification for a list without a repeated unit; for
  any list, the call equals the call with both options written out.
\<close>

theorem breakdown_option_defaults:
  "breakdown this (OptionsOnly given) other =
     spec_breakdown (asMilliseconds this) [Days, Hours, Minutes, Seconds, Milliseconds]
       (case floatLast_opt given of None \<Rightarrow> True | Some b \<Rightarrow> b)
       (case includeZero_opt given of None \<Rightarrow> False | Some b \<Rightarrow> b)
   \<and> (distinct units \<longrightarrow>
       breakdown this (UnitList units) given =
         spec_breakdown (asMilliseconds this) units
           (case floatLast_opt given of None \<Rightarrow> False | Some b \<Rightarrow> b)
           (case includeZero_opt given of None \<Rightarrow> True | Some b \<Rightarrow> b))
   \<and> breakdown this (UnitList units) given =
       breakdown this (UnitList units)
         \<lparr>floatLast_opt = Some (case floatLast_opt given of None \<Rightarrow> False | Some b \<Rightarrow> b),
          includeZero_opt = Some (case includeZero_opt given of None \<Rightarrow> True | Some b \<Rightarrow> b)\<rparr>"
proof (intro conjI impI)
  show "breakdown this (OptionsOnly given) other =
     spec_breakdown (asMilliseconds this) [Days, Hours, Minutes, Seconds, Milliseconds]
       (case floatLast_opt given of None \<Rightarrow> True | Some b \<Rightarrow> b)
       (case includeZero_opt given of None \<Rightarrow> False | Some b \<Rightarrow> b)"
    using breakdown_is_spec_breakdown [of "OptionsOnly given" other this]
    by (simp add: spread_def split: option.splits)
next
  assume "distinct units"
  then show "breakdown this (UnitList units) given =
         spec_breakdown (asMilliseconds this) units
           (case floatLast_opt given of None \<Rightarrow> False | Some b \<Rightarrow> b)
           (case includeZero_opt given of None \<Rightarrow> True | Some b \<Rightarrow> b)"
    using breakdown_is_spec_breakdown [of "UnitList units" given this]
    by (simp add: spread_def split: option.splits)
next
  show "breakdown this (UnitList units) given =
       breakdown this (UnitList units)
         \<lparr>floatLast_opt = Some (case floatLast_opt given of None \<Rightarrow> False | Some b \<Rightarrow> b),
          includeZero_opt = Some (case includeZero_opt given of None \<Rightarrow> True | Some b \<Rightarrow> b)\<rparr>"
    by (simp add: breakdown_def spread_def split: option.splits)
qed

theorem breakdown_option_defaults_witness:
  "breakdown \<lparr>asMilliseconds = Fin 5415000\<rparr>
       (OptionsOnly \<lparr>floatLast_opt = None, includeZero_opt = None\<rparr>)
       \<lparr>floatLast_opt = None, includeZero_opt = None\<rparr> =
     [(Hours, Fin 1), (Minutes, Fin 30), (Seconds, Fin 15)]
   \<and> breakdown \<lparr>asMilliseconds = Fin 5415000\<rparr>
       (OptionsOnly \<lparr>floatLast_opt = None, includeZero_opt = Some True\<rparr>)
       \<lparr>floatLast_opt = None, includeZero_opt = None\<rparr> =
     [(Days, Fin 0), (Hours, Fin 1), (Minutes, Fin 30), (Seconds, Fin 15), (Milliseconds, Fin 0)]
   \<and> distinct [Days, Minutes]
   \<and> breakdown \<lparr>asMilliseconds = Fin 5415000\<rparr> (UnitList [Days, Minutes])
       \<lparr>floatLast_opt = None, includeZero_opt = None\<rparr> = [(Days, Fin 0), (Minutes, Fin 90)]
   \<and> breakdown \<lparr>asMilliseconds = Fin 5415000\<rparr> (UnitList [Days, Minutes])
       \<lparr>floatLast_opt = Some True, includeZero_opt = Some False\<rparr> = [(Minutes, Fin (361/4))]"
  using breakdown_option_defaults [of "\<lparr>asMilliseconds = Fin 5415000\<rparr>" "\<lparr>floatLast_opt = None, includeZero_opt = None\<rparr>"
        "\<lparr>floatLast_opt = None, includeZero_opt = None\<rparr>" "[Days, Minutes]"]
    breakdown_option_defaults [of "\<lparr>asMilliseconds = Fin 5415000\<rparr>" "\<lparr>floatLast_opt = None, includeZero_opt = Some True\<rparr>"
        "\<lparr>floatLast_opt = None, includeZero_opt = None\<rparr>" "[Days, Minutes]"]
    breakdown_option_defaults [of "\<lparr>asMilliseconds = Fin 5415000\<rparr>" "\<lparr>floatLast_opt = Some True, includeZero_opt = Some False\<rparr>"
        "\<lparr>floatLast_opt = None, includeZero_opt = None\<rparr>" "[Days, Minutes]"]
  by (simp add: spec_breakdown_def significance_order_def js_sub_def breakdown_def spread_def
      Array_sort_def Array_at_last_def breakdown_each_def js_ne_def Let_def)

text \<open>
  Claim C6, as stated for every unit list, fails: the rest below the last unit is dropped.
  1500 ms broken down into seconds alone is 1 second, which sums to 1000 ms.
\<close>

theorem breakdown_roundtrip_counterexample:
  "asMilliseconds (new_TimePeriod (OfBreakdown
       (breakdown \<lparr>asMilliseconds = Fin 1500\<rparr> (UnitList [Seconds])
          \<lparr>floatLast_opt = Some False, includeZero_opt = Some True\<rparr>))) = Fin 1000
   \<and> \<not> js_eq (Fin 1000) (asMilliseconds \<lparr>asMilliseconds = Fin 1500\<rparr>)"
  by (simp add: breakdown_def spread_def Array_sort_def Array_at_last_def breakdown_each_def
      js_sub_def js_ne_def)

text \<open>
  Claim C6, amended. For every TimePeriod of a whole number \<open>n\<close> of milliseconds from 0 to
  \<open>2^52\<close> and every non-empty unit list without a repeated unit and without microfortnights,
  the sum of \<open>amount * divisor\<close> over the breakdown with \<open>includeZero = true\<close> and
  \<open>floatLast = false\<close> is \<open>n\<close> less the remainder of \<open>n\<close> modulo the divisor of the least
  significant unit of the list. So the sum is \<open>n\<close> if and only if \<open>n\<close> is a multiple of that
  divisor, and always when milliseconds are among the units. The range and the units are
  those on which the doubles of the program compute exactly what the model computes: all
  values are whole numbers from 0 to \<open>n\<close> (lemma \<open>breakdown_whole_amounts\<close>), so below \<open>2^53\<close>. Beyond \<open>2^53\<close>, and with the divisor 1209.6, the
  program rounds and the sum can miss: for \<open>1e19\<close> ms in days, hours, minutes, seconds and
  milliseconds it is \<open>1e19 + 2048\<close>.
\<close>

theorem breakdown_roundtrip_up_to_dropped_rest:
  assumes "0 \<le> n" and "n \<le> 2 ^ 52" and "distinct units" and "units \<noteq> []"
    and "Microfortnights \<notin> set units"
  shows "asMilliseconds (new_TimePeriod (OfBreakdown
       (breakdown \<lparr>asMilliseconds = Fin (of_int n)\<rparr> (UnitList units)
          \<lparr>floatLast_opt = Some False, includeZero_opt = Some True\<rparr>))) =
       Fin (of_int (n - n mod \<lfloor>divisors (last (significance_order units))\<rfloor>))
     \<and> (js_eq (asMilliseconds (new_TimePeriod (OfBreakdown
           (breakdown \<lparr>asMilliseconds = Fin (of_int n)\<rparr> (UnitList units)
              \<lparr>floatLast_opt = Some False, includeZero_opt = Some True\<rparr>)))) (Fin (of_int n))
         \<longleftrightarrow> \<lfloor>divisors (last (significance_order units))\<rfloor> dvd n)
     \<and> (Milliseconds \<in> set units \<longrightarrow>
         asMilliseconds (new_TimePeriod (OfBreakdown
           (breakdown \<lparr>asMilliseconds = Fin (of_int n)\<rparr> (UnitList units)
              \<lparr>floatLast_opt = Some False, includeZero_opt = Some True\<rparr>))) = Fin (of_int n))"
proof -
  let ?s = "significance_order units"
  let ?d = "\<lfloor>divisors (last ?s)\<rfloor>"
  let ?total = "asMilliseconds (new_TimePeriod (OfBreakdown
       (breakdown \<lparr>asMilliseconds = Fin (of_int n)\<rparr> (UnitList units)
          \<lparr>floatLast_opt = Some False, includeZero_opt = Some True\<rparr>)))"
  have ne: "?s \<noteq> []" using assms(4) by (simp add: significance_order_Nil)
  have nmf: "Microfortnights \<notin> set ?s" using assms(5) by (simp add: significance_order_def)
  have srt: "sorted (map (\<lambda>u. - divisors u) ?s)" by (simp add: significance_order_def)
  have bd: "breakdown \<lparr>asMilliseconds = Fin (of_int n)\<rparr> (UnitList units)
          \<lparr>floatLast_opt = Some False, includeZero_opt = Some True\<rparr> =
          spec_amounts False (Fin (of_int n)) ?s"
    using breakdown_is_spec_breakdown [of "UnitList units"
        "\<lparr>floatLast_opt = Some False, includeZero_opt = Some True\<rparr>"
        "\<lparr>asMilliseconds = Fin (of_int n)\<rparr>"] assms(3)
    by (simp add: spread_def spec_breakdown_def)
  have tot: "?total = Fin (of_int (n - n mod ?d))"
    using total_whole_amounts [OF ne nmf srt, of 0 n] by (simp add: bd)
  have eq: "js_eq ?total (Fin (of_int n)) \<longleftrightarrow> ?d dvd n"
    unfolding tot by (auto simp: dvd_eq_mod_eq_0)
  have ms: "?total = Fin (of_int n)" if "Milliseconds \<in> set units"
    unfolding tot using last_significance_order [OF that] by simp
  show ?thesis using tot eq ms by blast
qed

theorem breakdown_roundtrip_up_to_dropped_rest_witness:
  "(0::int) \<le> 5415250 \<and> (5415250::int) \<le> 2 ^ 52 \<and> distinct [Minutes, Seconds, Hours]
   \<and> [Minutes, Seconds, Hours] \<noteq> [] \<and> Microfortnights \<notin> set [Minutes, Seconds, Hours]
   \<and> asMilliseconds (new_TimePeriod (OfBreakdown
       (breakdown \<lparr>asMilliseconds = Fin 5415250\<rparr> (UnitList [Minutes, Seconds, Hours])
          \<lparr>floatLast_opt = Some False, includeZero_opt = Some True\<rparr>))) = Fin 5415000"
  using breakdown_roundtrip_up_to_dropped_rest [of 5415250 "[Minutes, Seconds, Hours]"]
  by (simp add: significance_order_def)

subsection \<open>Validation of a calendar descriptor\<close>

text \<open>
  The integrality check \<^verbatim>\<open>v % 1 > 0\<close> finds exactly the values that are positive and
  no integer: the remainder takes the sign of \<open>v\<close>, so it is never positive for a negative \<open>v\<close>.
\<close>

lemma integrality_check:
  "js_gt (js_rem (Fin x) (Fin 1)) (Fin 0) \<longleftrightarrow> 0 < x \<and> x \<notin> \<int>"
proof (cases "0 \<le> x")
  case True
  have "x - of_int \<lfloor>x\<rfloor> > 0 \<longleftrightarrow> x \<notin> \<int>"
    by (metis Ints_of_int of_int_floor diff_gt_0_iff_gt of_int_floor_le order_less_le)
  moreover have "x \<noteq> 0" if "x \<notin> \<int>" using that by auto
  ultimately show ?thesis using True by (auto simp: js_gt_def trunc_def)
next
  case False
  have "x \<le> of_int \<lceil>x\<rceil>" by (rule le_of_int_ceiling)
  then show ?thesis using False by (simp add: js_gt_def trunc_def not_less)
qed

lemma invalid_descriptor_iff:
  "new_TimePoint h (InDescription input) = Inl invalid_descriptor \<longleftrightarrow>
     list_ex (\<lambda>v. js_gt (js_rem v (Fin 1)) (Fin 0))
       [year input, month input, day input, hour input, minute input]"
  by (simp add: invalid_descriptor_def Let_def)

text \<open>
  Claim C5. A descriptor whose year, month, day, hour or minute is no integer is to be
  refused with the invalid-descriptor error, for positive and for negative values. The
  code refuses the positive ones only. With the year -2021.5 and the other fields valid the
  constructor throws nothing, in both revisions; with the hour -0.5 it throws the range
  error of the hour, not the invalid-descriptor error.
\<close>

theorem negative_fraction_passes_integrality_check:
  "(\<exists>p. new_TimePoint h (InDescription
      \<lparr>year = Fin (- 2021.5), month = Fin 10, day = Fin 31, hour = Fin 19, minute = Fin 30,
       second = Fin 0, timezone = ''GMT''\<rparr>) = Inr p)
   \<and> (\<exists>p. new_TimePoint_v1 h
      \<lparr>year = Fin (- 2021.5), month = Fin 10, day = Fin 31, hour = Fin 19, minute = Fin 30,
       second = Fin 0, timezone = ''GMT''\<rparr> = Inr p)
   \<and> new_TimePoint h (InDescription
      \<lparr>year = Fin 2020, month = Fin 10, day = Fin 31, hour = Fin (- 0.5), minute = Fin 30,
       second = Fin 0, timezone = ''GMT''\<rparr>) = Inl (RangeError ''Invalid hour'')"
proof -
  have "Date_day0_getDate (Fin (- (4043 / 2))) (Fin 10) = Fin 31"
    by code_simp
  moreover have "Date_day0_getDate (Fin 2020) (Fin 10) = Fin 31"
    by code_simp
  ultimately show ?thesis
    by (simp add: new_TimePoint_v1_def maxDay_v1_def js_gt_def js_ge_def js_le_def js_sub_def
        trunc_def ceiling_def)
qed

text \<open>
  What holds of the claim: a positive value that is no integer in one of the five fields
  gives the invalid-descriptor error, and the second is not looked at.
\<close>

lemma positive_fraction_is_invalid_descriptor:
  assumes "v \<in> {year input, month input, day input, hour input, minute input}"
    and "v = Fin x" and "0 < x" and "x \<notin> \<int>"
  shows "new_TimePoint h (InDescription input) = Inl invalid_descriptor"
proof -
  have "js_gt (js_rem v (Fin 1)) (Fin 0)"
    using assms(2-4) by (simp add: integrality_check del: js_rem.simps)
  then show ?thesis
    unfolding invalid_descriptor_iff using assms(1) by auto
qed

lemma second_is_not_checked_for_integrality:
  "(new_TimePoint h (InDescription (input\<lparr>second := s\<rparr>)) = Inl invalid_descriptor) =
   (new_TimePoint h (InDescription input) = Inl invalid_descriptor)"
  unfolding invalid_descriptor_iff by simp

subsection \<open>The day of the month\<close>

text \<open>
  For a year that the host does not take for a two-digit year and a month whose last day
  lies in the range of the host's dates, the host gives the length of the month, leap
  years resolved, and the check of the day is exact.
\<close>

lemma DaysInMonth_bounds: "k < 12 \<Longrightarrow> 28 \<le> DaysInMonth y k \<and> DaysInMonth y k \<le> 31"
proof -
  assume "k < 12"
  then have "k = 0 \<or> k = 1 \<or> k = 2 \<or> k = 3 \<or> k = 4 \<or> k = 5 \<or> k = 6 \<or> k = 7
      \<or> k = 8 \<or> k = 9 \<or> k = 10 \<or> k = 11" by arith
  then show ?thesis by (auto simp: DaysInMonth_def)
qed

lemma MonthStart_Suc: "MonthStart y (Suc n) = MonthStart y n + DaysInMonth y n"
  by (simp add: MonthStart_def)

lemma MonthStart_bounds: "mn \<le> 12 \<Longrightarrow> 0 \<le> MonthStart y mn \<and> MonthStart y mn \<le> 31 * int mn"
proof (induction mn)
  case 0
  then show ?case by (simp add: MonthStart_def)
next
  case (Suc n)
  then show ?case using DaysInMonth_bounds [of n y] by (simp add: MonthStart_Suc)
qed

lemma DayFromYear_bounds:
  "400 * DayFromYear y \<le> 146097 * y - 287810501 \<and> 146097 * y - 287811596 \<le> 400 * DayFromYear y"
proof -
  define q4 where "q4 = (y - 1969) div 4"
  define q100 where "q100 = (y - 1901) div 100"
  define q400 where "q400 = (y - 1601) div 400"
  have a: "4 * q4 \<le> y - 1969" "y - 1969 - 3 \<le> 4 * q4"
    unfolding q4_def
    using div_mult_mod_eq [of "y - 1969" 4] pos_mod_bound [of 4 "y - 1969"]
      pos_mod_sign [of 4 "y - 1969"] by linarith+
  have b: "100 * q100 \<le> y - 1901" "y - 1901 - 99 \<le> 100 * q100"
    unfolding q100_def
    using div_mult_mod_eq [of "y - 1901" 100] pos_mod_bound [of 100 "y - 1901"]
      pos_mod_sign [of 100 "y - 1901"] by linarith+
  have c: "400 * q400 \<le> y - 1601" "y - 1601 - 399 \<le> 400 * q400"
    unfolding q400_def
    using div_mult_mod_eq [of "y - 1601" 400] pos_mod_bound [of 400 "y - 1601"]
      pos_mod_sign [of 400 "y - 1601"] by linarith+
  have eq: "400 * DayFromYear y =
      146000 * y - 287620000 + 100 * (4 * q4) - 4 * (100 * q100) + 400 * q400"
    by (simp add: DayFromYear_def q4_def q100_def q400_def)
  have "400 * DayFromYear y \<le>
      146000 * y - 287620000 + 100 * (y - 1969) - 4 * (y - 1901 - 99) + (y - 1601)"
    unfolding eq using a(1) b(2) c(1)
    by (intro add_mono diff_mono mult_left_mono) simp_all
  moreover have "146000 * y - 287620000 + 100 * (y - 1969 - 3) - 4 * (y - 1901) + (y - 1601 - 399)
      \<le> 400 * DayFromYear y"
    unfolding eq using a(2) b(1) c(2)
    by (intro add_mono diff_mono mult_left_mono) simp_all
  ultimately show ?thesis by simp
qed

lemma trunc_of_int: "trunc (of_int z) = z"
  by (simp add: trunc_def)

lemma MakeFullYear_of_int:
  "y < 0 \<or> 99 < y \<Longrightarrow> MakeFullYear (Fin (of_int y)) = Fin (of_int y)"
  by (auto simp: trunc_of_int Let_def)

lemma day_number_in_range:
  assumes "- 271820 \<le> ym" "ym \<le> 275760" "0 \<le> ms" "ms \<le> 341" "ym = 275760 \<longrightarrow> ms = 0"
  shows "\<not> 8640000000000000 < \<bar>(DayFromYear ym + ms - 1) * msPerDay\<bar>"
proof -
  have b: "400 * DayFromYear ym \<le> 146097 * ym - 287810501"
    "146097 * ym - 287811596 \<le> 400 * DayFromYear ym"
    using DayFromYear_bounds [of ym] by simp_all
  have lo: "- 99999746 \<le> DayFromYear ym" using b(2) assms(1) by linarith
  have hi: "DayFromYear ym + ms \<le> 100000000"
  proof (cases "ym = 275760")
    case True
    then show ?thesis using b(1) assms(5) by linarith
  next
    case False
    then have "ym \<le> 275759" using assms(2) by simp
    then have "DayFromYear ym \<le> 99999381" using b(1) by linarith
    then show ?thesis using assms(4) by linarith
  qed
  define dy where "dy = DayFromYear ym + ms - 1"
  have "- 100000000 \<le> dy" "dy \<le> 100000000"
    unfolding dy_def using lo hi assms(3) by linarith+
  then have "\<not> 8640000000000000 < \<bar>dy * 86400000\<bar>" by linarith
  then show ?thesis by (simp add: dy_def msPerDay_def)
qed

lemma Date_day0_getDate_in_range:
  assumes y: "y < 0 \<or> 99 < y" "- 271820 \<le> y" "y \<le> 275759" and m: "1 \<le> m" "m \<le> 12"
  shows "Date_day0_getDate (Fin (of_int y)) (Fin (of_int m)) =
         Fin (of_int (DaysInMonth y (nat (m - 1))))"
proof (cases "m = 12")
  case True
  have "\<not> 8640000000000000 < \<bar>(DayFromYear (y + 1) + 0 - 1) * msPerDay\<bar>"
    using y by (intro day_number_in_range) simp_all
  moreover have "m div 12 = 1" "m mod 12 = 0" "nat (m - 1) = 11" using True by simp_all
  ultimately show ?thesis
    using y by (simp add: Date_day0_getDate_def MakeFullYear_of_int trunc_of_int
        Let_def MonthStart_def del: MakeFullYear.simps)
next
  case False
  then have m11: "m \<le> 11" using m by simp
  have md: "m div 12 = 0" "m mod 12 = m" using m m11 by simp_all
  have "nat m \<le> 12" using m11 by simp
  from MonthStart_bounds [OF this, of y]
  have ms: "0 \<le> MonthStart y (nat m)" "MonthStart y (nat m) \<le> 341"
    using m m11 by simp_all
  have "\<not> 8640000000000000 < \<bar>(DayFromYear y + MonthStart y (nat m) - 1) * msPerDay\<bar>"
    using y ms by (intro day_number_in_range) simp_all
  moreover have "nat m \<noteq> 0" "nat m - 1 = nat (m - 1)" using m by simp_all
  ultimately show ?thesis
    using y by (simp add: Date_day0_getDate_def MakeFullYear_of_int trunc_of_int
        Let_def md del: MakeFullYear.simps)
qed

lemma day_check_in_range:
  assumes y: "y < 0 \<or> 99 < y" "- 271820 \<le> y" "y \<le> 275759" and m: "1 \<le> m" "m \<le> 12"
    and input: "year input = Fin (of_int y)" "month input = Fin (of_int m)"
      "day input = Fin (of_int d)"
      "hour input = Fin (of_int hh)" "minute input = Fin (of_int mm)"
  shows "new_TimePoint h (InDescription input) = Inl (RangeError ''Invalid day'')
         \<longleftrightarrow> d < 1 \<or> DaysInMonth y (nat (m - 1)) < d"
proof -
  have int: "\<not> js_gt (js_rem (Fin (of_int z)) (Fin 1)) (Fin 0)" for z :: int
    unfolding integrality_check by simp
  have gt: "js_gt (Fin a) (Fin b) \<longleftrightarrow> b < a" for a b
    by (simp add: js_gt_def)
  show ?thesis
    using m by (simp add: input int gt Date_day0_getDate_in_range [OF y m] js_ge_def
        js_le_def Let_def invalid_descriptor_def del: js_rem.simps)
qed

lemma feb_29_in_range:
  assumes "y < 0 \<or> 99 < y" "- 271820 \<le> y" "y \<le> 275759"
    and "year input = Fin (of_int y)" "month input = Fin 2" "day input = Fin 29"
      "hour input = Fin (of_int hh)" "minute input = Fin (of_int mm)"
  shows "new_TimePoint h (InDescription input) = Inl (RangeError ''Invalid day'')
         \<longleftrightarrow> DaysInYear y \<noteq> 366"
  using day_check_in_range [of y 2 input 29 hh mm h] assms
  by (simp add: DaysInMonth_def)

text \<open>
  Claim C2. The day is to be refused exactly when it lies outside 1 to the length of the
  month, leap years resolved. The earlier revision checks against a table that gives
  February 29 days in every year, so it accepts 29 February 2021. The later revision asks
  the host, which takes the year 0 for 1900 and so refuses 29 February of the year 0, a
  leap year by the Gregorian rule, and which has no date in the year 275761, so that the
  bound is NaN and 30 February 275761 is accepted.
\<close>

theorem day_check_misses_cases:
  "(\<exists>p. new_TimePoint_v1 h
      \<lparr>year = Fin 2021, month = Fin 2, day = Fin 29, hour = Fin 19, minute = Fin 30,
       second = Fin 0, timezone = ''GMT''\<rparr> = Inr p)
   \<and> DaysInYear 2021 = 365
   \<and> new_TimePoint h (InDescription
      \<lparr>year = Fin 0, month = Fin 2, day = Fin 29, hour = Fin 19, minute = Fin 30,
       second = Fin 0, timezone = ''GMT''\<rparr>) = Inl (RangeError ''Invalid day'')
   \<and> DaysInYear 0 = 366
   \<and> (\<exists>p. new_TimePoint h (InDescription
      \<lparr>year = Fin 275761, month = Fin 2, day = Fin 30, hour = Fin 19, minute = Fin 30,
       second = Fin 0, timezone = ''GMT''\<rparr>) = Inr p)"
proof -
  have "Date_day0_getDate (Fin 0) (Fin 2) = Fin 28"
    by code_simp
  moreover have "Date_day0_getDate (Fin 275761) (Fin 2) = NaN"
    by code_simp
  ultimately show ?thesis
    by (simp add: new_TimePoint_v1_def maxDay_v1_def js_gt_def js_ge_def js_le_def js_sub_def
        trunc_def DaysInYear_def)
qed

text \<open>
  The cases the tests and the specification name: the later revision refuses
  30 February 2020 and 29 February 2021 and accepts 29 February 2020.
\<close>

lemma february_2020_and_2021:
  "new_TimePoint h (InDescription
      \<lparr>year = Fin 2020, month = Fin 2, day = Fin 30, hour = Fin 19, minute = Fin 30,
       second = Fin 0, timezone = ''GMT''\<rparr>) = Inl (RangeError ''Invalid day'')
   \<and> new_TimePoint h (InDescription
      \<lparr>year = Fin 2021, month = Fin 2, day = Fin 29, hour = Fin 19, minute = Fin 30,
       second = Fin 0, timezone = ''GMT''\<rparr>) = Inl (RangeError ''Invalid day'')
   \<and> (\<exists>p. new_TimePoint h (InDescription
      \<lparr>year = Fin 2020, month = Fin 2, day = Fin 29, hour = Fin 19, minute = Fin 30,
       second = Fin 0, timezone = ''GMT''\<rparr>) = Inr p)"
proof -
  have "Date_day0_getDate (Fin 2020) (Fin 2) = Fin 29"
    by code_simp
  moreover have "Date_day0_getDate (Fin 2021) (Fin 2) = Fin 28"
    by code_simp
  ultimately show ?thesis
    by (simp add: js_gt_def js_ge_def js_le_def trunc_def)
qed

end
